theory Spec2Isabelle
  imports Complex_Main "HOL-Library.Char_ord" "HOL-Library.List_Lexorder"
    "HOL-Library.Product_Lexorder" "HOL-Library.Multiset"
begin

section \<open>The flow-path overlay of \<open>visualize.py\<close>\<close>

text \<open>
  The development embeds \<open>visualize_max_flow\<close> of \<open>src/visualize.py\<close>: the endpoint
  checks (lines 150-171), the validation loop over the flow-path records (lines 200-236)
  and the loop computing the width of every highlighted edge (lines 244-269).

  Node identifiers are strings, ordered as Python orders \<open>str\<close> (lexicographically by
  character code); edge tuples are ordered lexicographically on the pair, as Python orders
  tuples. Flow values are mathematical reals: the rounding of binary floating point, its
  infinities and NaN are not modelled. Layout, sector colours, the legend and the prints that carry no defect do not
  influence which edges are highlighted nor how wide they are drawn, and are left out.
\<close>

subsection \<open>Data model\<close>

type_synonym node = string

text \<open>A \<open>networkx.DiGraph\<close> as far as the overlay reads it: \<open>n in G\<close> and
  \<open>G.has_edge(u, v)\<close>.\<close>

record graph =
  nodes :: "node set"
  edges :: "(node \<times> node) set"

definition has_node :: "graph \<Rightarrow> node \<Rightarrow> bool" where
  "has_node G n = (n \<in> nodes G)"

definition has_edge :: "graph \<Rightarrow> node \<Rightarrow> node \<Rightarrow> bool" where
  "has_edge G u v = ((u, v) \<in> edges G)"

text \<open>
  A flow-path record is a Python \<open>dict\<close> read from JSON. Each of its two keys is either
  not in the dict, in the dict with the value \<open>null\<close> (Python \<open>None\<close>), or in the dict
  with a value.
\<close>

datatype 'a field = Missing | Null | Present 'a

record path_info =
  path :: "node list field"
  flow :: "real field"

text \<open>\<open>d.get(k)\<close>: \<open>None\<close> for a key that is not there, and for one that holds \<open>None\<close>.\<close>

fun dict_get :: "'a field \<Rightarrow> 'a option" where
  "dict_get Missing = None"
| "dict_get Null = None"
| "dict_get (Present x) = Some x"

text \<open>\<open>d.get(k, dflt)\<close>: the default only for a key that is not there; a key holding
  \<open>None\<close> yields \<open>None\<close>.\<close>

fun dict_get_default :: "'a field \<Rightarrow> 'a \<Rightarrow> 'a option" where
  "dict_get_default Missing dflt = Some dflt"
| "dict_get_default Null dflt = None"
| "dict_get_default (Present x) dflt = Some x"

datatype error = TypeError

datatype pyvalue = PyNone

subsection \<open>Validation of the records (lines 200-236)\<close>

text \<open>The debug line printed with every increment of \<open>path_issues_count\<close>; the number
  is the index of the record in \<open>flow_paths\<close>.\<close>

datatype defect =
    MissingPath nat
  | MissingFlow nat
  | NodeNotInGraph node nat
  | EdgeNotInGraph node node nat

record vstate =
  valid_flow_edges :: "(node \<times> node) set"
  path_issues_count :: nat
  debug_log :: "defect list"

definition init_vstate :: vstate where
  "init_vstate = \<lparr>valid_flow_edges = {}, path_issues_count = 0, debug_log = []\<rparr>"

definition add_issue :: "defect \<Rightarrow> vstate \<Rightarrow> vstate" where
  "add_issue d st =
     st\<lparr>path_issues_count := path_issues_count st + 1, debug_log := debug_log st @ [d]\<rparr>"

text \<open>The loop of lines 218-223: the first node that is not in the graph, if any.\<close>

fun first_missing_node :: "graph \<Rightarrow> node list \<Rightarrow> node option" where
  "first_missing_node G [] = None"
| "first_missing_node G (n # ns) =
     (if \<not> has_node G n then Some n else first_missing_node G ns)"

text \<open>The loop of lines 228-234 over the consecutive pairs of a node sequence.\<close>

fun check_edges :: "graph \<Rightarrow> nat \<Rightarrow> node list \<Rightarrow> vstate \<Rightarrow> vstate" where
  "check_edges G i (u # v # rest) st =
     check_edges G i (v # rest)
       (if has_edge G u v then st\<lparr>valid_flow_edges := insert (u, v) (valid_flow_edges st)\<rparr>
        else add_issue (EdgeNotInGraph u v i) st)"
| "check_edges G i ns st = st"

text \<open>One iteration of the loop of line 204.\<close>

definition validate_record :: "graph \<Rightarrow> nat \<Rightarrow> path_info \<Rightarrow> vstate \<Rightarrow> vstate" where
  "validate_record G i path_info st =
     (let path_nodes = dict_get (path path_info);
          path_flow = dict_get (flow path_info)
      in if path_nodes = None \<or> path_nodes = Some [] then add_issue (MissingPath i) st
         else if path_flow = None then add_issue (MissingFlow i) st
         else (case first_missing_node G (the path_nodes) of
                 Some node_name \<Rightarrow> add_issue (NodeNotInGraph node_name i) st
               | None \<Rightarrow> check_edges G i (the path_nodes) st))"

fun validate_from :: "graph \<Rightarrow> nat \<Rightarrow> path_info list \<Rightarrow> vstate \<Rightarrow> vstate" where
  "validate_from G i [] st = st"
| "validate_from G i (p # ps) st = validate_from G (Suc i) ps (validate_record G i p st)"

definition validate_paths :: "graph \<Rightarrow> path_info list \<Rightarrow> vstate" where
  "validate_paths G flow_paths = validate_from G 0 flow_paths init_vstate"

subsection \<open>Flow and width of the highlighted edges (lines 244-264)\<close>

text \<open>The loop of lines 257-260: does the pair occur at two consecutive positions?\<close>

fun edge_in_path :: "node list \<Rightarrow> node \<Rightarrow> node \<Rightarrow> bool" where
  "edge_in_path (a # b # rest) u v = ((a = u \<and> b = v) \<or> edge_in_path (b # rest) u v)"
| "edge_in_path ns u v = False"

text \<open>
  One iteration of the loop of line 254. \<open>len(p_nodes)\<close> raises \<open>TypeError\<close> when the
  record holds \<open>None\<close> under \<open>path\<close>, and \<open>max(m, p_flow)\<close> raises \<open>TypeError\<close> when it
  holds \<open>None\<close> under \<open>flow\<close>.
\<close>

definition flow_step :: "node \<Rightarrow> node \<Rightarrow> path_info \<Rightarrow> real \<Rightarrow> error + real" where
  "flow_step u v path_info max_flow_on_this_edge =
     (case dict_get_default (path path_info) [] of
        None \<Rightarrow> Inl TypeError
      | Some p_nodes \<Rightarrow>
          if edge_in_path p_nodes u v
          then (case dict_get_default (flow path_info) 0 of
                  None \<Rightarrow> Inl TypeError
                | Some p_flow \<Rightarrow> Inr (max max_flow_on_this_edge p_flow))
          else Inr max_flow_on_this_edge)"

fun max_flow_from :: "node \<Rightarrow> node \<Rightarrow> path_info list \<Rightarrow> real \<Rightarrow> error + real" where
  "max_flow_from u v [] m = Inr m"
| "max_flow_from u v (p # ps) m =
     (case flow_step u v p m of Inl e \<Rightarrow> Inl e | Inr m' \<Rightarrow> max_flow_from u v ps m')"

definition max_flow_on_this_edge :: "path_info list \<Rightarrow> node \<times> node \<Rightarrow> error + real" where
  "max_flow_on_this_edge flow_paths e = max_flow_from (fst e) (snd e) flow_paths 0"

definition edge_width :: "real \<Rightarrow> real" where
  "edge_width m = max 0.5 (1.0 + 5.0 * m)"

text \<open>The loop of line 252, building \<open>edge_widths_list\<close>.\<close>

fun edge_widths_list :: "path_info list \<Rightarrow> (node \<times> node) list \<Rightarrow> error + real list" where
  "edge_widths_list flow_paths [] = Inr []"
| "edge_widths_list flow_paths (e # es) =
     (case max_flow_on_this_edge flow_paths e of
        Inl err \<Rightarrow> Inl err
      | Inr m \<Rightarrow>
          (case edge_widths_list flow_paths es of
             Inl err \<Rightarrow> Inl err
           | Inr ws \<Rightarrow> Inr (edge_width m # ws)))"

subsection \<open>The function as a whole\<close>

datatype title = SourceNotFound node | SinkNotFound node | MaximumFlow node node

datatype event =
    PrintError title
  | PrintDefect defect
  | PrintIssues nat
  | DrawPlainGraph
  | DrawRegularEdges
  | DrawFlowEdges "(node \<times> node) list" "real list"
  | DrawNodes
  | DrawSource node
  | DrawSink node
  | DrawLabels
  | SetTitle title
  | SaveFig string
  | Show

definition draw_flow_edges :: "path_info list \<Rightarrow> (node \<times> node) set \<Rightarrow> error + event list" where
  "draw_flow_edges flow_paths E =
     (if E \<noteq> {} then
        (let sorted_valid_flow_edges = sorted_list_of_set E
         in case edge_widths_list flow_paths sorted_valid_flow_edges of
              Inl err \<Rightarrow> Inl err
            | Inr ws \<Rightarrow> Inr [DrawFlowEdges sorted_valid_flow_edges ws])
      else Inr [])"

text \<open>
  The result is \<open>Inl\<close> when an exception leaves the function, and otherwise the returned
  value (always \<open>None\<close>) with what the call printed and drew, in order.
\<close>

definition visualize_max_flow ::
  "graph \<Rightarrow> path_info list \<Rightarrow> node \<Rightarrow> node \<Rightarrow> string \<Rightarrow> error + (pyvalue \<times> event list)" where
  "visualize_max_flow G flow_paths source sink output_file =
     (if \<not> has_node G source then
        Inr (PyNone, [PrintError (SourceNotFound source), DrawPlainGraph,
                      SetTitle (SourceNotFound source), SaveFig output_file, Show])
      else if \<not> has_node G sink then
        Inr (PyNone, [PrintError (SinkNotFound sink), DrawPlainGraph,
                      SetTitle (SinkNotFound sink), SaveFig output_file, Show])
      else
        (let st = validate_paths G flow_paths
         in case draw_flow_edges flow_paths (valid_flow_edges st) of
              Inl err \<Rightarrow> Inl err
            | Inr flow_events \<Rightarrow>
                Inr (PyNone,
                     [DrawRegularEdges] @ map PrintDefect (debug_log st)
                     @ (if path_issues_count st > 0 then [PrintIssues (path_issues_count st)] else [])
                     @ flow_events
                     @ [DrawNodes, DrawSource source, DrawSink sink, DrawLabels,
                        SetTitle (MaximumFlow source sink), SaveFig output_file, Show])))"

subsection \<open>Observations on which the properties are stated\<close>

text \<open>The node sequence and the flow value that the loop of lines 254-260 reads from a
  record from which it does not raise: \<open>[]\<close> and \<open>0.0\<close> are the defaults of the two
  \<open>get\<close> calls.\<close>

definition path_of :: "path_info \<Rightarrow> node list" where
  "path_of p = (case path p of Present ns \<Rightarrow> ns | Null \<Rightarrow> [] | Missing \<Rightarrow> [])"

definition flow_of :: "path_info \<Rightarrow> real" where
  "flow_of p = (case flow p of Present f \<Rightarrow> f | Null \<Rightarrow> 0 | Missing \<Rightarrow> 0)"

text \<open>The consecutive pairs of a node sequence.\<close>

definition segments :: "node list \<Rightarrow> (node \<times> node) list" where
  "segments ns = zip ns (tl ns)"

definition traverses :: "path_info \<Rightarrow> node \<times> node \<Rightarrow> bool" where
  "traverses p e = edge_in_path (path_of p) (fst e) (snd e)"

text \<open>The record raises in the loop of lines 254-260 run for the edge \<open>e\<close>.\<close>

definition flow_raises :: "path_info \<Rightarrow> node \<times> node \<Rightarrow> bool" where
  "flow_raises p e = (path p = Null \<or> (traverses p e \<and> flow p = Null))"

text \<open>The record passes the three checks of lines 208-225, so that its segments are
  walked.\<close>

definition record_accepted :: "graph \<Rightarrow> path_info \<Rightarrow> bool" where
  "record_accepted G p =
     (path_of p \<noteq> [] \<and> dict_get (flow p) \<noteq> None \<and> first_missing_node G (path_of p) = None)"

definition record_edges :: "graph \<Rightarrow> path_info \<Rightarrow> (node \<times> node) set" where
  "record_edges G p =
     (if record_accepted G p then set (filter (\<lambda>e. has_edge G (fst e) (snd e)) (segments (path_of p)))
      else {})"

definition record_issues :: "graph \<Rightarrow> path_info \<Rightarrow> nat" where
  "record_issues G p =
     (if record_accepted G p
      then length (filter (\<lambda>e. \<not> has_edge G (fst e) (snd e)) (segments (path_of p)))
      else 1)"

text \<open>A defect that stands for a whole record, as opposed to one segment of it.\<close>

fun record_level :: "defect \<Rightarrow> bool" where
  "record_level (MissingPath i) = True"
| "record_level (MissingFlow i) = True"
| "record_level (NodeNotInGraph n i) = True"
| "record_level (EdgeNotInGraph u v i) = False"

text \<open>The iteration for the record ends in one of the \<open>continue\<close> statements of lines
  211, 215 and 225: it logs a defect for the record as a whole.\<close>

definition skipped_with_defect :: "graph \<Rightarrow> path_info \<Rightarrow> bool" where
  "skipped_with_defect G p =
     list_ex record_level (debug_log (validate_record G 0 p init_vstate))"

text \<open>The values of \<open>max_flow_on_this_edge\<close> at line 264, one for each edge of the loop of
  line 252.\<close>

fun max_flows :: "path_info list \<Rightarrow> (node \<times> node) list \<Rightarrow> error + real list" where
  "max_flows flow_paths [] = Inr []"
| "max_flows flow_paths (e # es) =
     (case max_flow_on_this_edge flow_paths e of
        Inl err \<Rightarrow> Inl err
      | Inr m \<Rightarrow>
          (case max_flows flow_paths es of
             Inl err \<Rightarrow> Inl err
           | Inr ms \<Rightarrow> Inr (m # ms)))"

text \<open>The highlighted edges, in the order in which they are drawn, each with its
  aggregated flow.\<close>

definition highlighted_edges :: "graph \<Rightarrow> path_info list \<Rightarrow> error + ((node \<times> node) \<times> real) list" where
  "highlighted_edges G flow_paths =
     (let sorted_valid_flow_edges = sorted_list_of_set (valid_flow_edges (validate_paths G flow_paths))
      in case max_flows flow_paths sorted_valid_flow_edges of
           Inl err \<Rightarrow> Inl err
         | Inr ms \<Rightarrow> Inr (zip sorted_valid_flow_edges ms))"

text \<open>The flow values of the records that traverse an edge: of all of them, and of those
  that pass validation.\<close>

definition traversing_flows :: "path_info list \<Rightarrow> node \<times> node \<Rightarrow> real list" where
  "traversing_flows flow_paths e = map flow_of (filter (\<lambda>p. traverses p e) flow_paths)"

definition validating_flows :: "graph \<Rightarrow> path_info list \<Rightarrow> node \<times> node \<Rightarrow> real list" where
  "validating_flows G flow_paths e =
     map flow_of (filter (\<lambda>p. record_accepted G p \<and> traverses p e) flow_paths)"

definition aggregated_flow :: "path_info list \<Rightarrow> node \<times> node \<Rightarrow> real" where
  "aggregated_flow flow_paths e = Max (insert 0 (set (traversing_flows flow_paths e)))"

section \<open>Auxiliary facts\<close>

subsection \<open>The validation loop\<close>

lemma edge_in_path_segments: "edge_in_path ns u v \<longleftrightarrow> (u, v) \<in> set (segments ns)"
  by (induction ns u v rule: edge_in_path.induct) (auto simp: segments_def)

lemma segments_Cons2: "segments (u # v # rest) = (u, v) # segments (v # rest)"
  by (simp add: segments_def)

lemma segments_short: "segments [] = []" "segments [n] = []"
  by (simp_all add: segments_def)

lemma check_edges_valid:
  "valid_flow_edges (check_edges G i ns st) =
     valid_flow_edges st \<union> set (filter (\<lambda>e. has_edge G (fst e) (snd e)) (segments ns))"
  by (induction G i ns st rule: check_edges.induct)
     (auto simp: segments_Cons2 segments_short add_issue_def)

lemma check_edges_count:
  "path_issues_count (check_edges G i ns st) =
     path_issues_count st + length (filter (\<lambda>e. \<not> has_edge G (fst e) (snd e)) (segments ns))"
  by (induction G i ns st rule: check_edges.induct)
     (auto simp: segments_Cons2 segments_short add_issue_def)

lemma check_edges_log:
  "debug_log (check_edges G i ns st) =
     debug_log st @ map (\<lambda>e. EdgeNotInGraph (fst e) (snd e) i)
                      (filter (\<lambda>e. \<not> has_edge G (fst e) (snd e)) (segments ns))"
  by (induction G i ns st rule: check_edges.induct)
     (auto simp: segments_Cons2 segments_short add_issue_def)

lemma first_missing_node_None:
  "first_missing_node G ns = None \<longleftrightarrow> (\<forall>n\<in>set ns. has_node G n)"
  by (induction ns) auto

lemma first_missing_node_Some:
  "first_missing_node G ns = Some n \<Longrightarrow> n \<in> set ns \<and> \<not> has_node G n"
  by (induction ns) (auto split: if_splits)

lemma dict_get_path_of: "dict_get (path p) = Some ns \<Longrightarrow> path_of p = ns"
  by (cases "path p") (auto simp: path_of_def)

lemma validate_record_eq:
  "validate_record G i p st =
     (if path_of p = [] then add_issue (MissingPath i) st
      else if dict_get (flow p) = None then add_issue (MissingFlow i) st
      else (case first_missing_node G (path_of p) of
              Some n \<Rightarrow> add_issue (NodeNotInGraph n i) st
            | None \<Rightarrow> check_edges G i (path_of p) st))"
  by (cases "path p"; cases "flow p")
     (auto simp: validate_record_def path_of_def Let_def split: option.splits)

lemma validate_record_accepted:
  "record_accepted G p \<Longrightarrow> validate_record G i p st = check_edges G i (path_of p) st"
  by (auto simp: validate_record_eq record_accepted_def)

lemma validate_record_skipped:
  "\<not> record_accepted G p \<Longrightarrow> \<exists>d. record_level d \<and> validate_record G i p st = add_issue d st"
proof -
  assume na: "\<not> record_accepted G p"
  consider (a) "path_of p = []" | (b) "path_of p \<noteq> []" "dict_get (flow p) = None"
    | (c) n where "path_of p \<noteq> []" "dict_get (flow p) \<noteq> None" "first_missing_node G (path_of p) = Some n"
    using na by (auto simp: record_accepted_def)
  then show ?thesis
  proof cases
    case a
    then have "record_level (MissingPath i) \<and> validate_record G i p st = add_issue (MissingPath i) st"
      by (simp add: validate_record_eq)
    then show ?thesis by blast
  next
    case b
    then have "record_level (MissingFlow i) \<and> validate_record G i p st = add_issue (MissingFlow i) st"
      by (simp add: validate_record_eq)
    then show ?thesis by blast
  next
    case c
    then have "record_level (NodeNotInGraph n i) \<and> validate_record G i p st = add_issue (NodeNotInGraph n i) st"
      by (auto simp: validate_record_eq)
    then show ?thesis by blast
  qed
qed

lemma validate_record_valid:
  "valid_flow_edges (validate_record G i p st) = valid_flow_edges st \<union> record_edges G p"
proof (cases "record_accepted G p")
  case True
  then show ?thesis by (simp add: validate_record_accepted check_edges_valid record_edges_def)
next
  case False
  from validate_record_skipped [OF this, of i st] show ?thesis
    using False by (auto simp: record_edges_def add_issue_def)
qed

lemma validate_record_count:
  "path_issues_count (validate_record G i p st) = path_issues_count st + record_issues G p"
proof (cases "record_accepted G p")
  case True
  then show ?thesis by (simp add: validate_record_accepted check_edges_count record_issues_def)
next
  case False
  from validate_record_skipped [OF this, of i st] show ?thesis
    using False by (auto simp: record_issues_def add_issue_def)
qed

lemma validate_from_valid:
  "valid_flow_edges (validate_from G i ps st) = valid_flow_edges st \<union> (\<Union>p\<in>set ps. record_edges G p)"
  by (induction ps arbitrary: i st) (auto simp: validate_record_valid)

lemma validate_from_count:
  "path_issues_count (validate_from G i ps st) = path_issues_count st + sum_list (map (record_issues G) ps)"
  by (induction ps arbitrary: i st) (auto simp: validate_record_count)

lemma validate_paths_valid:
  "valid_flow_edges (validate_paths G ps) = (\<Union>p\<in>set ps. record_edges G p)"
  by (simp add: validate_paths_def validate_from_valid init_vstate_def)

lemma validate_paths_count:
  "path_issues_count (validate_paths G ps) = sum_list (map (record_issues G) ps)"
  by (simp add: validate_paths_def validate_from_count init_vstate_def)

lemma finite_valid_flow_edges: "finite (valid_flow_edges (validate_paths G ps))"
  by (simp add: validate_paths_valid record_edges_def)

lemma record_edges_subset: "record_edges G p \<subseteq> edges G"
  by (auto simp: record_edges_def has_edge_def)

subsection \<open>The aggregation loop\<close>

lemma flow_step_eq:
  "flow_step u v p m =
     (if flow_raises p (u, v) then Inl TypeError
      else Inr (if traverses p (u, v) then max m (flow_of p) else m))"
  by (cases "path p"; cases "flow p")
     (auto simp: flow_step_def flow_raises_def traverses_def path_of_def flow_of_def)

lemma max_flow_from_eq:
  "max_flow_from u v ps m =
     (if \<exists>p\<in>set ps. flow_raises p (u, v) then Inl TypeError
      else Inr (Max (insert m (set (traversing_flows ps (u, v))))))"
proof (induction ps arbitrary: m)
  case Nil
  then show ?case by (simp add: traversing_flows_def)
next
  case (Cons p ps)
  have fin: "finite (set (traversing_flows ps (u, v)))" by simp
  have "Max (insert (max m (flow_of p)) (set (traversing_flows ps (u, v)))) =
        Max (insert m (insert (flow_of p) (set (traversing_flows ps (u, v)))))"
    by (cases "set (traversing_flows ps (u, v)) = {}") (simp_all add: max.assoc)
  then show ?case
    using Cons.IH by (auto simp: flow_step_eq traversing_flows_def)
qed

lemma max_flow_on_this_edge_eq:
  "max_flow_on_this_edge ps e =
     (if \<exists>p\<in>set ps. flow_raises p e then Inl TypeError else Inr (aggregated_flow ps e))"
  by (cases e) (simp add: max_flow_on_this_edge_def max_flow_from_eq aggregated_flow_def)

lemma max_flows_eq:
  "max_flows ps es =
     (if \<exists>e\<in>set es. \<exists>p\<in>set ps. flow_raises p e then Inl TypeError
      else Inr (map (aggregated_flow ps) es))"
  by (induction es) (auto simp: max_flow_on_this_edge_eq)

lemma edge_widths_list_max_flows:
  "edge_widths_list ps es =
     (case max_flows ps es of Inl err \<Rightarrow> Inl err | Inr ms \<Rightarrow> Inr (map edge_width ms))"
  by (induction es) (auto split: sum.splits)

lemma highlighted_edges_eq:
  "highlighted_edges G ps =
     (if \<exists>e\<in>valid_flow_edges (validate_paths G ps). \<exists>p\<in>set ps. flow_raises p e then Inl TypeError
      else Inr (map (\<lambda>e. (e, aggregated_flow ps e))
                  (sorted_list_of_set (valid_flow_edges (validate_paths G ps)))))"
  using finite_valid_flow_edges [of G ps]
  by (auto simp: highlighted_edges_def max_flows_eq Let_def zip_map2 zip_same_conv_map comp_def)

subsection \<open>What is drawn\<close>

lemma draw_flow_edges_events:
  assumes "draw_flow_edges ps E = Inr fev" "DrawFlowEdges es ws \<in> set fev"
  shows "E \<noteq> {} \<and> es = sorted_list_of_set E \<and> edge_widths_list ps es = Inr ws"
  using assms by (auto simp: draw_flow_edges_def Let_def split: if_splits sum.splits)

lemma visualize_flow_events:
  assumes "visualize_max_flow G ps s t out = Inr (v, evs)" "DrawFlowEdges es ws \<in> set evs"
  shows "has_node G s \<and> has_node G t \<and> valid_flow_edges (validate_paths G ps) \<noteq> {}
         \<and> es = sorted_list_of_set (valid_flow_edges (validate_paths G ps))
         \<and> edge_widths_list ps es = Inr ws"
proof -
  from assms have st: "has_node G s" "has_node G t"
    by (auto simp: visualize_max_flow_def split: if_splits)
  with assms obtain fev where fev: "draw_flow_edges ps (valid_flow_edges (validate_paths G ps)) = Inr fev"
    and "DrawFlowEdges es ws \<in> set fev"
    by (auto simp: visualize_max_flow_def Let_def split: if_splits sum.splits)
  from draw_flow_edges_events [OF this] st show ?thesis by blast
qed

lemma drawn_edges_highlighted:
  assumes "visualize_max_flow G ps s t out = Inr (v, evs)" "DrawFlowEdges es ws \<in> set evs"
  shows "\<exists>hs. highlighted_edges G ps = Inr hs \<and> es = map fst hs \<and> ws = map (\<lambda>h. edge_width (snd h)) hs"
proof -
  from visualize_flow_events [OF assms]
  have es: "es = sorted_list_of_set (valid_flow_edges (validate_paths G ps))"
    and ws: "edge_widths_list ps es = Inr ws" by blast+
  from ws obtain ms where ms: "max_flows ps es = Inr ms" and wm: "ws = map edge_width ms"
    by (auto simp: edge_widths_list_max_flows split: sum.splits)
  from ms have len: "length ms = length es"
    by (auto simp: max_flows_eq split: if_splits)
  have "highlighted_edges G ps = Inr (zip es ms)"
    using ms es by (simp add: highlighted_edges_def)
  moreover have "es = map fst (zip es ms)" using len by simp
  moreover have "ws = map (\<lambda>h. edge_width (snd h)) (zip es ms)"
  proof -
    have "map (\<lambda>h. edge_width (snd h)) (zip es ms) = map edge_width (map snd (zip es ms))"
      by (simp add: comp_def)
    also have "map snd (zip es ms) = ms" using len by simp
    finally show ?thesis using wm by simp
  qed
  ultimately show ?thesis by blast
qed

lemma highlighted_fst:
  "highlighted_edges G ps = Inr hs \<Longrightarrow> map fst hs = sorted_list_of_set (valid_flow_edges (validate_paths G ps))"
  by (auto simp: highlighted_edges_eq comp_def split: if_splits)

lemma highlighted_mem:
  "highlighted_edges G ps = Inr hs \<Longrightarrow>
     (e, m) \<in> set hs \<longleftrightarrow> (e \<in> valid_flow_edges (validate_paths G ps) \<and> m = aggregated_flow ps e)"
  using finite_valid_flow_edges [of G ps]
  by (auto simp: highlighted_edges_eq split: if_splits)

lemma valid_flow_edges_subset: "valid_flow_edges (validate_paths G ps) \<subseteq> edges G"
  using record_edges_subset by (auto simp: validate_paths_valid)

subsection \<open>Aggregated flows and the order of the records\<close>

lemma aggregated_flow_set:
  "aggregated_flow ps e = Max (insert 0 (flow_of ` {p \<in> set ps. traverses p e}))"
  by (simp add: aggregated_flow_def traversing_flows_def)

lemma aggregated_flow_nonneg: "0 \<le> aggregated_flow ps e"
  by (simp add: aggregated_flow_def)

lemma aggregated_flow_ge:
  "p \<in> set ps \<Longrightarrow> traverses p e \<Longrightarrow> flow_of p \<le> aggregated_flow ps e"
  by (simp add: aggregated_flow_set)

lemma aggregated_flow_negative:
  assumes "\<forall>p\<in>set ps. traverses p e \<longrightarrow> flow_of p < 0"
  shows "aggregated_flow ps e = 0"
  unfolding aggregated_flow_set
  by (rule Max_eqI) (use assms in \<open>auto intro: less_imp_le\<close>)

lemma edge_width_ge_1: "0 \<le> m \<Longrightarrow> 1 \<le> edge_width m"
  by (simp add: edge_width_def)

lemma set_eq_validate:
  assumes "set ps = set ps'"
  shows "valid_flow_edges (validate_paths G ps) = valid_flow_edges (validate_paths G ps')"
  using assms by (simp add: validate_paths_valid)

lemma set_eq_aggregated:
  assumes "set ps = set ps'"
  shows "aggregated_flow ps e = aggregated_flow ps' e"
  using assms by (simp add: aggregated_flow_set)

lemma set_eq_max_flows:
  assumes "set ps = set ps'"
  shows "max_flows ps es = max_flows ps' es"
  using assms set_eq_aggregated [OF assms] by (simp add: max_flows_eq)

lemma set_eq_highlighted:
  assumes "set ps = set ps'"
  shows "highlighted_edges G ps = highlighted_edges G ps'"
  using set_eq_validate [OF assms, of G] set_eq_max_flows [OF assms]
  by (simp add: highlighted_edges_def)

lemma set_eq_draw:
  assumes "set ps = set ps'"
  shows "draw_flow_edges ps E = draw_flow_edges ps' E"
  using set_eq_max_flows [OF assms]
  by (simp add: draw_flow_edges_def edge_widths_list_max_flows)

lemma mset_eq_count:
  assumes "mset ps = mset ps'"
  shows "path_issues_count (validate_paths G ps) = path_issues_count (validate_paths G ps')"
proof -
  have "sum_list (map (record_issues G) ps) = sum_mset (image_mset (record_issues G) (mset ps))"
    by (metis mset_map sum_mset_sum_list)
  also have "\<dots> = sum_list (map (record_issues G) ps')"
    unfolding assms by (metis mset_map sum_mset_sum_list)
  finally show ?thesis by (simp add: validate_paths_count)
qed

lemma highlighted_sorted:
  assumes "highlighted_edges G ps = Inr hs"
  shows "sorted_wrt (\<lambda>x y. fst x < fst y \<or> (fst x = fst y \<and> snd x < snd y)) (map fst hs)"
proof -
  have lex: "(<) = (\<lambda>x y :: node \<times> node. fst x < fst y \<or> (fst x = fst y \<and> snd x < snd y))"
    by (intro ext) (auto simp: less_prod_def)
  have "sorted_wrt (<) (map fst hs)"
    unfolding highlighted_fst [OF assms] by (rule strict_sorted_list_of_set)
  then show ?thesis by (simp only: lex)
qed

subsection \<open>The defect log and the skipped records\<close>

lemma validate_record_log:
  "debug_log (validate_record G i p st) = debug_log st @ debug_log (validate_record G i p init_vstate)"
  by (simp add: validate_record_eq check_edges_log add_issue_def init_vstate_def split: option.splits)

lemma validate_from_log_mono:
  "set (debug_log st) \<subseteq> set (debug_log (validate_from G i ps st))"
proof (induction ps arbitrary: i st)
  case Nil
  show ?case by simp
next
  case (Cons p ps)
  have "set (debug_log st) \<subseteq> set (debug_log (validate_record G i p st))"
    by (subst validate_record_log) simp
  also have "\<dots> \<subseteq> set (debug_log (validate_from G (Suc i) ps (validate_record G i p st)))"
    by (rule Cons.IH)
  finally show ?case by simp
qed

lemma validate_from_log_nth:
  "k < length ps \<Longrightarrow>
     set (debug_log (validate_record G (i + k) (ps ! k) init_vstate))
       \<subseteq> set (debug_log (validate_from G i ps st))"
proof (induction ps arbitrary: i st k)
  case Nil
  then show ?case by simp
next
  case (Cons p ps)
  show ?case
  proof (cases k)
    case 0
    have "set (debug_log (validate_record G i p init_vstate)) \<subseteq> set (debug_log (validate_record G i p st))"
      by (subst (2) validate_record_log) simp
    also have "\<dots> \<subseteq> set (debug_log (validate_from G (Suc i) ps (validate_record G i p st)))"
      by (rule validate_from_log_mono)
    finally show ?thesis using 0 by simp
  next
    case (Suc j)
    with Cons.prems have "j < length ps" by simp
    from Cons.IH [OF this, of "Suc i" "validate_record G i p st"] show ?thesis
      using Suc by simp
  qed
qed

lemma validate_paths_log_nth:
  "k < length ps \<Longrightarrow>
     set (debug_log (validate_record G k (ps ! k) init_vstate)) \<subseteq> set (debug_log (validate_paths G ps))"
  using validate_from_log_nth [of k ps G 0 init_vstate] by (simp add: validate_paths_def)

lemma record_accepted_iff:
  "record_accepted G p \<longleftrightarrow>
     (path_of p \<noteq> [] \<and> flow p \<noteq> Missing \<and> flow p \<noteq> Null \<and> (\<forall>n\<in>set (path_of p). has_node G n))"
  by (cases "flow p") (auto simp: record_accepted_def first_missing_node_None)

lemma skipped_iff_not_accepted: "skipped_with_defect G p \<longleftrightarrow> \<not> record_accepted G p"
proof (cases "record_accepted G p")
  case True
  then show ?thesis
    by (simp add: skipped_with_defect_def validate_record_accepted check_edges_log init_vstate_def
        list_ex_iff)
next
  case False
  from validate_record_skipped [OF this, of 0 init_vstate] show ?thesis
    using False by (auto simp: skipped_with_defect_def add_issue_def init_vstate_def)
qed

lemma not_accepted_effect:
  assumes "\<not> record_accepted G p"
  shows "valid_flow_edges (validate_record G i p st) = valid_flow_edges st
       \<and> path_issues_count (validate_record G i p st) = path_issues_count st + 1"
  using assms by (simp add: validate_record_valid validate_record_count record_edges_def record_issues_def)

lemma unknown_node_not_accepted:
  "path p = Present ns \<Longrightarrow> n \<in> set ns \<Longrightarrow> \<not> has_node G n \<Longrightarrow> \<not> record_accepted G p"
  by (auto simp: record_accepted_iff path_of_def)

lemma validate_paths_drop_record:
  assumes "\<not> record_accepted G p"
  shows "valid_flow_edges (validate_paths G (ps @ p # qs)) = valid_flow_edges (validate_paths G (ps @ qs))"
    and "path_issues_count (validate_paths G (ps @ p # qs)) = path_issues_count (validate_paths G (ps @ qs)) + 1"
  using assms by (simp_all add: validate_paths_valid validate_paths_count record_edges_def record_issues_def)

lemma aggregated_flow_insert:
  "aggregated_flow (ps @ p # qs) e =
     (if traverses p e then max (aggregated_flow (ps @ qs) e) (flow_of p)
      else aggregated_flow (ps @ qs) e)"
proof -
  let ?S = "flow_of ` {q \<in> set (ps @ qs). traverses q e}"
  have fin: "finite (insert 0 ?S)" and ne: "insert 0 ?S \<noteq> {}" by simp_all
  show ?thesis
  proof (cases "traverses p e")
    case True
    then have "{q \<in> set (ps @ p # qs). traverses q e} = insert p {q \<in> set (ps @ qs). traverses q e}"
      by auto
    then have "aggregated_flow (ps @ p # qs) e = Max (insert (flow_of p) (insert 0 ?S))"
      by (simp add: aggregated_flow_set insert_commute)
    also have "\<dots> = max (flow_of p) (Max (insert 0 ?S))"
      using fin ne by (rule Max_insert)
    finally show ?thesis using True by (simp add: aggregated_flow_set max.commute)
  next
    case False
    then have "{q \<in> set (ps @ p # qs). traverses q e} = {q \<in> set (ps @ qs). traverses q e}"
      by auto
    then show ?thesis using False by (simp add: aggregated_flow_set)
  qed
qed

lemma highlighted_drop_record:
  assumes na: "\<not> record_accepted G p"
    and hs: "highlighted_edges G (ps @ p # qs) = Inr hs"
    and hs': "highlighted_edges G (ps @ qs) = Inr hs'"
  shows "map fst hs = map fst hs'"
    and "(e, m) \<in> set hs \<Longrightarrow>
           \<exists>m'. (e, m') \<in> set hs' \<and> m = (if traverses p e then max m' (flow_of p) else m')"
proof -
  have v: "valid_flow_edges (validate_paths G (ps @ p # qs)) = valid_flow_edges (validate_paths G (ps @ qs))"
    using validate_paths_drop_record(1) [OF na] .
  show "map fst hs = map fst hs'"
    by (simp add: highlighted_fst [OF hs] highlighted_fst [OF hs'] v)
  assume "(e, m) \<in> set hs"
  then have e: "e \<in> valid_flow_edges (validate_paths G (ps @ qs))"
    and m: "m = aggregated_flow (ps @ p # qs) e"
    using highlighted_mem [OF hs, of e m] v by simp_all
  from e have "(e, aggregated_flow (ps @ qs) e) \<in> set hs'"
    by (simp add: highlighted_mem [OF hs'])
  moreover have "m = (if traverses p e then max (aggregated_flow (ps @ qs) e) (flow_of p)
                      else aggregated_flow (ps @ qs) e)"
    unfolding m by (rule aggregated_flow_insert)
  ultimately show "\<exists>m'. (e, m') \<in> set hs' \<and> m = (if traverses p e then max m' (flow_of p) else m')"
    by blast
qed

section \<open>The claims\<close>

text \<open>
  Claim C4. The claim: for every graph and every list of records, also with records that
  hold a null flow, validation and aggregation never raise. The code raises: with the graph
  \<open>A \<rightarrow> B\<close> and the records \<open>{path: [A, B], flow: 0.5}\<close> and \<open>{path: [A, B], flow: null}\<close>,
  validation skips the second record and highlights \<open>(A, B)\<close>; the loop of line 254 then
  reads the second record again, with \<open>None\<close> as its flow, and \<open>max(0.5, None)\<close> raises
  \<open>TypeError\<close>.
\<close>

theorem null_flow_raises:
  "visualize_max_flow \<lparr>nodes = {''A'', ''B''}, edges = {(''A'', ''B'')}\<rparr>
     [\<lparr>path = Present [''A'', ''B''], flow = Present 0.5\<rparr>,
      \<lparr>path = Present [''A'', ''B''], flow = Null\<rparr>] ''A'' ''B'' ''out.png'' = Inl TypeError"
  by code_simp

text \<open>
  Claim C9. Every highlighted edge is a directed edge of the graph: the set of valid flow
  edges that validation builds, the highlighted edges with their flows, and the edge list
  handed to the drawing call all lie within the edge set of the graph.
\<close>

theorem highlighted_edges_in_graph:
  "valid_flow_edges (validate_paths G ps) \<subseteq> edges G
   \<and> (\<forall>hs. highlighted_edges G ps = Inr hs \<longrightarrow> fst ` set hs \<subseteq> edges G)
   \<and> (\<forall>v evs es ws. visualize_max_flow G ps s t out = Inr (v, evs) \<and> DrawFlowEdges es ws \<in> set evs
        \<longrightarrow> set es \<subseteq> edges G)"
proof (intro conjI allI impI)
  show "valid_flow_edges (validate_paths G ps) \<subseteq> edges G" by (rule valid_flow_edges_subset)
next
  fix hs assume "highlighted_edges G ps = Inr hs"
  then show "fst ` set hs \<subseteq> edges G"
    using valid_flow_edges_subset [of G ps] by (auto simp: highlighted_mem)
next
  fix v evs es ws
  assume "visualize_max_flow G ps s t out = Inr (v, evs) \<and> DrawFlowEdges es ws \<in> set evs"
  then have "es = sorted_list_of_set (valid_flow_edges (validate_paths G ps))"
    using visualize_flow_events by blast
  then show "set es \<subseteq> edges G"
    using valid_flow_edges_subset [of G ps] finite_valid_flow_edges [of G ps] by simp
qed

theorem highlighted_edges_in_graph_witness:
  "visualize_max_flow \<lparr>nodes = {''A'', ''B'', ''C''}, edges = {(''A'', ''B''), (''B'', ''C'')}\<rparr>
     [\<lparr>path = Present [''A'', ''B'', ''C''], flow = Present 0.5\<rparr>,
      \<lparr>path = Present [''C'', ''A''], flow = Present 0.25\<rparr>] ''A'' ''C'' ''out.png''
   = Inr (PyNone, [DrawRegularEdges, PrintDefect (EdgeNotInGraph ''C'' ''A'' 1), PrintIssues 1,
        DrawFlowEdges [(''A'', ''B''), (''B'', ''C'')] [7/2, 7/2], DrawNodes, DrawSource ''A'', DrawSink ''C'', DrawLabels,
        SetTitle (MaximumFlow ''A'' ''C''), SaveFig ''out.png'', Show])
   \<and> set [(''A'', ''B''), (''B'', ''C'')] \<subseteq> edges \<lparr>nodes = {''A'', ''B'', ''C''}, edges = {(''A'', ''B''), (''B'', ''C'')}\<rparr>"
proof -
  let ?G = "\<lparr>nodes = {''A'', ''B'', ''C''}, edges = {(''A'', ''B''), (''B'', ''C'')}\<rparr>"
  let ?ps = "[\<lparr>path = Present [''A'', ''B'', ''C''], flow = Present 0.5\<rparr>,
      \<lparr>path = Present [''C'', ''A''], flow = Present 0.25\<rparr>]"
  let ?evs = "[DrawRegularEdges, PrintDefect (EdgeNotInGraph ''C'' ''A'' 1), PrintIssues 1,
        DrawFlowEdges [(''A'', ''B''), (''B'', ''C'')] [7/2, 7/2], DrawNodes, DrawSource ''A'', DrawSink ''C'', DrawLabels,
        SetTitle (MaximumFlow ''A'' ''C''), SaveFig ''out.png'', Show]"
  have run: "visualize_max_flow ?G ?ps ''A'' ''C'' ''out.png'' = Inr (PyNone, ?evs)"
    by code_simp
  moreover have "DrawFlowEdges [(''A'', ''B''), (''B'', ''C'')] [7/2, 7/2] \<in> set ?evs" by simp
  ultimately show ?thesis
    using highlighted_edges_in_graph [of ?G ?ps "''A''" "''C''" "''out.png''"] by blast
qed

text \<open>
  Claim C1. The claim: the aggregated flow of a highlighted edge is the maximum of the flow
  values of the validating paths through it. It fails on the graph \<open>A \<rightarrow> B\<close> with the
  records \<open>{path: [A, B], flow: 0.3}\<close> and \<open>{path: [A, B, X], flow: 0.7}\<close>: validation
  discards the second record, as \<open>X\<close> is not in the graph, so that 0.3 is the only flow of
  a validating path through \<open>(A, B)\<close>; the edge is drawn with the flow 0.7, because line 254
  iterates all the original records.
\<close>

theorem discarded_record_counts:
  "highlighted_edges \<lparr>nodes = {''A'', ''B''}, edges = {(''A'', ''B'')}\<rparr>
       [\<lparr>path = Present [''A'', ''B''], flow = Present 0.3\<rparr>,
        \<lparr>path = Present [''A'', ''B'', ''X''], flow = Present 0.7\<rparr>] = Inr [((''A'', ''B''), 0.7)]
   \<and> validating_flows \<lparr>nodes = {''A'', ''B''}, edges = {(''A'', ''B'')}\<rparr>
       [\<lparr>path = Present [''A'', ''B''], flow = Present 0.3\<rparr>,
        \<lparr>path = Present [''A'', ''B'', ''X''], flow = Present 0.7\<rparr>] (''A'', ''B'') = [0.3]
   \<and> Max (set [0.3 :: real]) \<noteq> 0.7"
  by code_simp

text \<open>
  Claim C1, as amended. When the call does not raise, the aggregated flow of a highlighted
  edge is the maximum of 0 and of the flow values of all the records of the list, validated
  or not, whose node sequence holds the edge at two consecutive positions (a record without
  a flow counts as 0). For two records with the path \<open>[a, b]\<close> and the flows 0.3 and 0.7, in
  a graph with the edge \<open>(a, b)\<close>, the only highlighted edge is \<open>(a, b)\<close>, with the flow 0.7.
\<close>

theorem aggregated_flow_all_records:
  "(highlighted_edges G ps = Inr hs \<and> (e, m) \<in> set hs \<longrightarrow>
      m = Max (insert 0 (set (traversing_flows ps e))))
   \<and> (has_node G a \<and> has_node G b \<and> has_edge G a b \<longrightarrow>
      highlighted_edges G [\<lparr>path = Present [a, b], flow = Present 0.3\<rparr>,
                           \<lparr>path = Present [a, b], flow = Present 0.7\<rparr>] = Inr [((a, b), 0.7)])"
proof (intro conjI impI)
  assume "highlighted_edges G ps = Inr hs \<and> (e, m) \<in> set hs"
  then show "m = Max (insert 0 (set (traversing_flows ps e)))"
    by (auto simp: highlighted_mem aggregated_flow_def)
next
  assume g: "has_node G a \<and> has_node G b \<and> has_edge G a b"
  let ?ps = "[\<lparr>path = Present [a, b], flow = Present 0.3\<rparr>, \<lparr>path = Present [a, b], flow = Present 0.7\<rparr>]"
  have v: "valid_flow_edges (validate_paths G ?ps) = {(a, b)}"
    using g by (simp add: validate_paths_def validate_record_def init_vstate_def)
  have m: "max_flow_on_this_edge ?ps (a, b) = Inr 0.7"
    by (simp add: max_flow_on_this_edge_def flow_step_def)
  show "highlighted_edges G ?ps = Inr [((a, b), 0.7)]"
    by (simp add: highlighted_edges_def v m)
qed

theorem aggregated_flow_all_records_witness:
  "highlighted_edges \<lparr>nodes = {''A'', ''B''}, edges = {(''A'', ''B'')}\<rparr>
       [\<lparr>path = Present [''A'', ''B''], flow = Present 0.3\<rparr>,
        \<lparr>path = Present [''A'', ''B''], flow = Present 0.7\<rparr>] = Inr [((''A'', ''B''), 0.7)]
   \<and> 0.7 = Max (insert 0 (set (traversing_flows
       [\<lparr>path = Present [''A'', ''B''], flow = Present 0.3\<rparr>,
        \<lparr>path = Present [''A'', ''B''], flow = Present 0.7\<rparr>] (''A'', ''B''))))"
proof -
  let ?G = "\<lparr>nodes = {''A'', ''B''}, edges = {(''A'', ''B'')}\<rparr>"
  let ?ps = "[\<lparr>path = Present [''A'', ''B''], flow = Present 0.3\<rparr>,
        \<lparr>path = Present [''A'', ''B''], flow = Present 0.7\<rparr>]"
  have g: "has_node ?G ''A'' \<and> has_node ?G ''B'' \<and> has_edge ?G ''A'' ''B''"
    by (simp add: has_node_def has_edge_def)
  from aggregated_flow_all_records [of ?G ?ps "[((''A'', ''B''), 0.7)]" "(''A'', ''B'')" "0.7" "''A''" "''B''"] g
  show ?thesis by simp
qed

text \<open>
  Claim C6. Validation and aggregation on a permutation of the record list give the same
  result: the same highlighted edges with the same flows (or the same exception), the same
  set of valid flow edges, the same number of issues and the same drawing call. The
  highlighted edges are listed in strictly increasing lexicographic order of the pair
  \<open>(from, to)\<close>.
\<close>

theorem permutation_invariant:
  assumes "mset ps = mset ps'"
  shows "highlighted_edges G ps = highlighted_edges G ps'
       \<and> valid_flow_edges (validate_paths G ps) = valid_flow_edges (validate_paths G ps')
       \<and> path_issues_count (validate_paths G ps) = path_issues_count (validate_paths G ps')
       \<and> draw_flow_edges ps (valid_flow_edges (validate_paths G ps))
           = draw_flow_edges ps' (valid_flow_edges (validate_paths G ps'))
       \<and> (\<forall>hs. highlighted_edges G ps = Inr hs \<longrightarrow>
             sorted_wrt (\<lambda>x y. fst x < fst y \<or> (fst x = fst y \<and> snd x < snd y)) (map fst hs))"
proof -
  from assms have s: "set ps = set ps'" by (rule mset_eq_setD)
  show ?thesis
    using set_eq_highlighted [OF s, of G] set_eq_validate [OF s, of G] mset_eq_count [OF assms, of G]
      set_eq_draw [OF s] highlighted_sorted [of G ps]
    by simp
qed

theorem permutation_invariant_witness:
  "mset [\<lparr>path = Present [''A'', ''B'', ''C''], flow = Present 0.3\<rparr>, \<lparr>path = Present [''A'', ''B''], flow = Present 0.7\<rparr>]
     = mset [\<lparr>path = Present [''A'', ''B''], flow = Present 0.7\<rparr>, \<lparr>path = Present [''A'', ''B'', ''C''], flow = Present 0.3\<rparr>]
   \<and> highlighted_edges \<lparr>nodes = {''A'', ''B'', ''C''}, edges = {(''B'', ''C''), (''A'', ''B'')}\<rparr>
        [\<lparr>path = Present [''A'', ''B'', ''C''], flow = Present 0.3\<rparr>, \<lparr>path = Present [''A'', ''B''], flow = Present 0.7\<rparr>]
      = Inr [((''A'', ''B''), 7/10), ((''B'', ''C''), 3/10)]
   \<and> highlighted_edges \<lparr>nodes = {''A'', ''B'', ''C''}, edges = {(''B'', ''C''), (''A'', ''B'')}\<rparr>
        [\<lparr>path = Present [''A'', ''B''], flow = Present 0.7\<rparr>, \<lparr>path = Present [''A'', ''B'', ''C''], flow = Present 0.3\<rparr>]
      = Inr [((''A'', ''B''), 7/10), ((''B'', ''C''), 3/10)]"
proof -
  let ?G = "\<lparr>nodes = {''A'', ''B'', ''C''}, edges = {(''B'', ''C''), (''A'', ''B'')}\<rparr>"
  let ?p = "\<lparr>path = Present [''A'', ''B'', ''C''], flow = Present 0.3\<rparr>"
  let ?q = "\<lparr>path = Present [''A'', ''B''], flow = Present 0.7\<rparr>"
  have perm: "mset [?p, ?q] = mset [?q, ?p]" by (simp add: add_mset_commute)
  have run: "highlighted_edges ?G [?p, ?q] = Inr [((''A'', ''B''), 7/10), ((''B'', ''C''), 3/10)]"
    by code_simp
  from permutation_invariant [OF perm, of ?G] run
  have "highlighted_edges ?G [?q, ?p] = Inr [((''A'', ''B''), 7/10), ((''B'', ''C''), 3/10)]"
    by simp
  with perm run show ?thesis by blast
qed

text \<open>
  Claim C8. The width of a highlighted edge is \<open>max(0.5, 1.0 + 5.0 * flow)\<close> for its
  aggregated flow; every width handed to the drawing call is positive, and an aggregated
  flow of zero gives a positive width.
\<close>

theorem flow_edge_width:
  "(visualize_max_flow G ps s t out = Inr (v, evs) \<and> DrawFlowEdges es ws \<in> set evs \<longrightarrow>
      (\<exists>hs. highlighted_edges G ps = Inr hs \<and> es = map fst hs
           \<and> ws = map (\<lambda>h. max 0.5 (1.0 + 5.0 * snd h)) hs \<and> (\<forall>w\<in>set ws. 0 < w)))
   \<and> edge_width m = max 0.5 (1.0 + 5.0 * m) \<and> 0 < edge_width 0"
proof (intro conjI impI)
  assume a: "visualize_max_flow G ps s t out = Inr (v, evs) \<and> DrawFlowEdges es ws \<in> set evs"
  then obtain hs where hs: "highlighted_edges G ps = Inr hs" "es = map fst hs"
      "ws = map (\<lambda>h. edge_width (snd h)) hs"
    using drawn_edges_highlighted by blast
  have "0 < edge_width x" for x by (simp add: edge_width_def)
  then have "\<forall>w\<in>set ws. 0 < w" using hs(3) by auto
  with hs show "\<exists>hs. highlighted_edges G ps = Inr hs \<and> es = map fst hs
           \<and> ws = map (\<lambda>h. max 0.5 (1.0 + 5.0 * snd h)) hs \<and> (\<forall>w\<in>set ws. 0 < w)"
    unfolding edge_width_def by blast
qed (simp_all add: edge_width_def)

theorem flow_edge_width_witness:
  "visualize_max_flow \<lparr>nodes = {''A'', ''B''}, edges = {(''A'', ''B'')}\<rparr>
        [\<lparr>path = Present [''A'', ''B''], flow = Present 0\<rparr>] ''A'' ''B'' ''f.png''
     = Inr (PyNone, [DrawRegularEdges, DrawFlowEdges [(''A'', ''B'')] [1], DrawNodes, DrawSource ''A'',
          DrawSink ''B'', DrawLabels, SetTitle (MaximumFlow ''A'' ''B''), SaveFig ''f.png'', Show])
   \<and> (\<exists>hs. highlighted_edges \<lparr>nodes = {''A'', ''B''}, edges = {(''A'', ''B'')}\<rparr>
        [\<lparr>path = Present [''A'', ''B''], flow = Present 0\<rparr>] = Inr hs \<and> [(''A'', ''B'')] = map fst hs
           \<and> [1] = map (\<lambda>h. max 0.5 (1.0 + 5.0 * snd h)) hs \<and> (\<forall>w\<in>set [1::real]. 0 < w))"
proof -
  let ?G = "\<lparr>nodes = {''A'', ''B''}, edges = {(''A'', ''B'')}\<rparr>"
  let ?ps = "[\<lparr>path = Present [''A'', ''B''], flow = Present 0\<rparr>]"
  let ?evs = "[DrawRegularEdges, DrawFlowEdges [(''A'', ''B'')] [1], DrawNodes, DrawSource ''A'',
          DrawSink ''B'', DrawLabels, SetTitle (MaximumFlow ''A'' ''B''), SaveFig ''f.png'', Show]"
  have run: "visualize_max_flow ?G ?ps ''A'' ''B'' ''f.png'' = Inr (PyNone, ?evs)"
    by code_simp
  have mem: "DrawFlowEdges [(''A'', ''B'')] [1] \<in> set ?evs" by simp
  have "\<exists>hs. highlighted_edges ?G ?ps = Inr hs \<and> [(''A'', ''B'')] = map fst hs
           \<and> [1] = map (\<lambda>h. max 0.5 (1.0 + 5.0 * snd h)) hs \<and> (\<forall>w\<in>set [1::real]. 0 < w)"
    by (rule mp [OF conjunct1 [OF flow_edge_width] conjI [OF run mem]])
  with run show ?thesis by (rule conjI)
qed

text \<open>
  Claim C10. The aggregated flow of a highlighted edge is at least 0; it is 0 when every
  record traversing the edge carries a negative flow; the width of every highlighted edge
  is at least 1.
\<close>

theorem aggregate_nonneg:
  assumes "highlighted_edges G ps = Inr hs" "(e, m) \<in> set hs"
  shows "0 \<le> m \<and> 1 \<le> edge_width m
       \<and> ((\<forall>p\<in>set ps. traverses p e \<longrightarrow> flow_of p < 0) \<longrightarrow> m = 0)
       \<and> (\<forall>v evs es ws. visualize_max_flow G ps s t out = Inr (v, evs) \<and> DrawFlowEdges es ws \<in> set evs
            \<longrightarrow> (\<forall>w\<in>set ws. 1 \<le> w))"
proof -
  from assms have m: "m = aggregated_flow ps e" by (simp add: highlighted_mem)
  have a: "0 \<le> m" by (simp add: m aggregated_flow_nonneg)
  have b: "1 \<le> edge_width m" using a by (rule edge_width_ge_1)
  have c: "(\<forall>p\<in>set ps. traverses p e \<longrightarrow> flow_of p < 0) \<longrightarrow> m = 0"
    using aggregated_flow_negative [of ps e] m by blast
  have d: "\<forall>w\<in>set ws. 1 \<le> w"
    if "visualize_max_flow G ps s t out = Inr (v, evs) \<and> DrawFlowEdges es ws \<in> set evs" for v evs es ws
  proof -
    from that obtain hs' where "highlighted_edges G ps = Inr hs'" and ws: "ws = map (\<lambda>h. edge_width (snd h)) hs'"
      using drawn_edges_highlighted by blast
    with assms(1) have "hs' = hs" by simp
    have "1 \<le> edge_width (snd h)" if "h \<in> set hs" for h
    proof -
      from that assms(1) have "snd h = aggregated_flow ps (fst h)"
        using highlighted_mem [of G ps hs "fst h" "snd h"] by simp
      then show ?thesis by (simp add: edge_width_ge_1 aggregated_flow_nonneg)
    qed
    then show ?thesis using ws \<open>hs' = hs\<close> by auto
  qed
  from a b c d show ?thesis by blast
qed

theorem aggregate_nonneg_witness:
  "highlighted_edges \<lparr>nodes = {''A'', ''B''}, edges = {(''A'', ''B'')}\<rparr>
        [\<lparr>path = Present [''A'', ''B''], flow = Present (- 1)\<rparr>] = Inr [((''A'', ''B''), 0)]
   \<and> ((''A'', ''B''), 0) \<in> set [((''A'', ''B''), 0 :: real)]
   \<and> 1 \<le> edge_width 0"
proof -
  have run: "highlighted_edges \<lparr>nodes = {''A'', ''B''}, edges = {(''A'', ''B'')}\<rparr>
        [\<lparr>path = Present [''A'', ''B''], flow = Present (- 1)\<rparr>] = Inr [((''A'', ''B''), 0)]"
    by code_simp
  have mem: "((''A'', ''B''), 0) \<in> set [((''A'', ''B''), 0 :: real)]" by simp
  from aggregate_nonneg [OF run mem] run mem show ?thesis by blast
qed

text \<open>
  Claim C5. The claim: a source or sink that is not in the graph is signalled by a result
  that the caller can tell apart, the choice between a degraded picture and giving up is
  left to the caller, and no flow is highlighted. The first two parts fail: with the source
  \<open>S\<close> on the graph \<open>A \<rightarrow> B\<close> the call prints an error, draws the plain graph itself, saves
  it to the output file and returns \<open>None\<close>, the value that the same call with the source
  \<open>A\<close> returns.
\<close>

theorem missing_source_same_result:
  "visualize_max_flow \<lparr>nodes = {''A'', ''B''}, edges = {(''A'', ''B'')}\<rparr>
        [\<lparr>path = Present [''A'', ''B''], flow = Present 1\<rparr>] ''S'' ''B'' ''f.png'' =
        Inr (PyNone, [PrintError (SourceNotFound ''S''), DrawPlainGraph,
                      SetTitle (SourceNotFound ''S''), SaveFig ''f.png'', Show])
   \<and> map_sum id fst (visualize_max_flow \<lparr>nodes = {''A'', ''B''}, edges = {(''A'', ''B'')}\<rparr>
        [\<lparr>path = Present [''A'', ''B''], flow = Present 1\<rparr>] ''S'' ''B'' ''f.png'')
     = map_sum id fst (visualize_max_flow \<lparr>nodes = {''A'', ''B''}, edges = {(''A'', ''B'')}\<rparr>
        [\<lparr>path = Present [''A'', ''B''], flow = Present 1\<rparr>] ''A'' ''B'' ''f.png'')"
  by code_simp

text \<open>
  Claim C5, as amended. If the source or the sink is not in the graph, the call prints an
  error that names the missing endpoint (the source first), itself draws the graph without
  any highlight under a title that names the missing endpoint, saves it to the output file
  and returns \<open>None\<close> as every other call does; no record is read, no flow edge is drawn
  and no exception is raised.
\<close>

theorem missing_endpoint_behaviour:
  "(\<not> has_node G source \<longrightarrow>
      visualize_max_flow G ps source sink out =
        Inr (PyNone, [PrintError (SourceNotFound source), DrawPlainGraph,
                      SetTitle (SourceNotFound source), SaveFig out, Show]))
   \<and> (has_node G source \<and> \<not> has_node G sink \<longrightarrow>
      visualize_max_flow G ps source sink out =
        Inr (PyNone, [PrintError (SinkNotFound sink), DrawPlainGraph,
                      SetTitle (SinkNotFound sink), SaveFig out, Show]))
   \<and> (\<not> has_node G source \<or> \<not> has_node G sink \<longrightarrow>
      (\<forall>v evs es ws. visualize_max_flow G ps source sink out = Inr (v, evs) \<longrightarrow>
          DrawFlowEdges es ws \<notin> set evs)
      \<and> (\<forall>err. visualize_max_flow G ps source sink out \<noteq> Inl err))"
  by (auto simp: visualize_max_flow_def)

theorem missing_endpoint_behaviour_witness:
  "\<not> has_node \<lparr>nodes = {''A'', ''B''}, edges = {(''A'', ''B'')}\<rparr> ''S''
   \<and> visualize_max_flow \<lparr>nodes = {''A'', ''B''}, edges = {(''A'', ''B'')}\<rparr>
        [\<lparr>path = Present [''A'', ''B''], flow = Null\<rparr>] ''S'' ''B'' ''f.png'' =
        Inr (PyNone, [PrintError (SourceNotFound ''S''), DrawPlainGraph,
                      SetTitle (SourceNotFound ''S''), SaveFig ''f.png'', Show])"
proof -
  have h: "\<not> has_node \<lparr>nodes = {''A'', ''B''}, edges = {(''A'', ''B'')}\<rparr> ''S''"
    by (simp add: has_node_def)
  from mp [OF conjunct1 [OF missing_endpoint_behaviour] h] h show ?thesis by (rule conjI [rotated])
qed

text \<open>
  Claim C7. The claim: a record is skipped with a defect if and only if its node sequence
  is empty or absent or its flow is absent. The \<open>only if\<close> fails: on a graph with the
  single node \<open>A\<close>, the record \<open>{path: [A, X], flow: 1.0}\<close> has a node sequence and a flow,
  and is skipped with a defect all the same, by line 225.
\<close>

theorem unknown_node_record_skipped:
  "skipped_with_defect \<lparr>nodes = {''A''}, edges = {}\<rparr> \<lparr>path = Present [''A'', ''X''], flow = Present 1\<rparr>
   \<and> validate_paths \<lparr>nodes = {''A''}, edges = {}\<rparr> [\<lparr>path = Present [''A'', ''X''], flow = Present 1\<rparr>]
      = \<lparr>valid_flow_edges = {}, path_issues_count = 1, debug_log = [NodeNotInGraph ''X'' 0]\<rparr>
   \<and> dict_get (path \<lparr>path = Present [''A'', ''X''], flow = Present 1\<rparr>) = Some [''A'', ''X'']
   \<and> dict_get (flow \<lparr>path = Present [''A'', ''X''], flow = Present 1\<rparr>) = Some 1"
  by code_simp

text \<open>
  Claim C7, as amended. A record is skipped with a defect if and only if its node sequence
  is empty or absent, or its flow is absent or null, or one of its nodes is not in the
  graph; a skipped record adds one issue and no edge. A record with a node sequence whose
  nodes are all in the graph and with the flow zero is not skipped: its segments are
  walked.
\<close>

theorem record_skipped_iff:
  "(skipped_with_defect G p \<longleftrightarrow>
      (path_of p = [] \<or> flow p = Missing \<or> flow p = Null \<or> (\<exists>n\<in>set (path_of p). \<not> has_node G n)))
   \<and> (skipped_with_defect G p \<longrightarrow>
        valid_flow_edges (validate_record G i p st) = valid_flow_edges st
        \<and> path_issues_count (validate_record G i p st) = path_issues_count st + 1)
   \<and> (path_of p \<noteq> [] \<and> flow p = Present 0 \<and> (\<forall>n\<in>set (path_of p). has_node G n) \<longrightarrow>
        \<not> skipped_with_defect G p
        \<and> validate_record G i p st = check_edges G i (path_of p) st)"
proof (intro conjI impI)
  show "skipped_with_defect G p \<longleftrightarrow>
      (path_of p = [] \<or> flow p = Missing \<or> flow p = Null \<or> (\<exists>n\<in>set (path_of p). \<not> has_node G n))"
    unfolding skipped_iff_not_accepted record_accepted_iff by blast
next
  assume "skipped_with_defect G p"
  then have na: "\<not> record_accepted G p" by (simp add: skipped_iff_not_accepted)
  from not_accepted_effect [OF na, of i st]
  show "valid_flow_edges (validate_record G i p st) = valid_flow_edges st"
    and "path_issues_count (validate_record G i p st) = path_issues_count st + 1" by simp_all
next
  assume a: "path_of p \<noteq> [] \<and> flow p = Present 0 \<and> (\<forall>n\<in>set (path_of p). has_node G n)"
  then have acc: "record_accepted G p" by (simp add: record_accepted_iff)
  then show "\<not> skipped_with_defect G p" by (simp add: skipped_iff_not_accepted)
  from acc show "validate_record G i p st = check_edges G i (path_of p) st"
    by (rule validate_record_accepted)
qed

theorem record_skipped_iff_witness:
  "\<not> skipped_with_defect \<lparr>nodes = {''A'', ''B''}, edges = {(''A'', ''B'')}\<rparr>
        \<lparr>path = Present [''A'', ''B''], flow = Present 0\<rparr>
   \<and> validate_record \<lparr>nodes = {''A'', ''B''}, edges = {(''A'', ''B'')}\<rparr> 0
        \<lparr>path = Present [''A'', ''B''], flow = Present 0\<rparr> init_vstate
      = \<lparr>valid_flow_edges = {(''A'', ''B'')}, path_issues_count = 0, debug_log = []\<rparr>
   \<and> skipped_with_defect \<lparr>nodes = {''A'', ''B''}, edges = {(''A'', ''B'')}\<rparr>
        \<lparr>path = Present [''A'', ''B''], flow = Missing\<rparr>
   \<and> path_issues_count (validate_record \<lparr>nodes = {''A'', ''B''}, edges = {(''A'', ''B'')}\<rparr> 0
        \<lparr>path = Present [''A'', ''B''], flow = Missing\<rparr> init_vstate) = 1"
proof -
  let ?G = "\<lparr>nodes = {''A'', ''B''}, edges = {(''A'', ''B'')}\<rparr>"
  let ?p = "\<lparr>path = Present [''A'', ''B''], flow = Present 0\<rparr>"
  let ?q = "\<lparr>path = Present [''A'', ''B''], flow = Missing\<rparr>"
  have hp: "path_of ?p \<noteq> [] \<and> flow ?p = Present 0 \<and> (\<forall>n\<in>set (path_of ?p). has_node ?G n)"
    by (simp add: path_of_def has_node_def)
  have hq: "path_of ?q = [] \<or> flow ?q = Missing \<or> flow ?q = Null \<or> (\<exists>n\<in>set (path_of ?q). \<not> has_node ?G n)"
    by simp
  note t = record_skipped_iff [of ?G ?p 0 init_vstate]
  note u = record_skipped_iff [of ?G ?q 0 init_vstate]
  from t hp have 1: "\<not> skipped_with_defect ?G ?p"
    and 2: "validate_record ?G 0 ?p init_vstate = check_edges ?G 0 (path_of ?p) init_vstate"
    by blast+
  have 3: "check_edges ?G 0 (path_of ?p) init_vstate
      = \<lparr>valid_flow_edges = {(''A'', ''B'')}, path_issues_count = 0, debug_log = []\<rparr>"
    by (simp add: path_of_def has_edge_def init_vstate_def)
  from u hq have 4: "skipped_with_defect ?G ?q" by blast
  with u have 5: "path_issues_count (validate_record ?G 0 ?q init_vstate) = path_issues_count init_vstate + 1"
    by blast
  from 1 2 3 4 5 show ?thesis by (simp add: init_vstate_def)
qed

text \<open>
  Claim C3. The claim: a record with a node that is not in the graph is discarded as a
  whole. It fails on the graph \<open>A \<rightarrow> B\<close>, where \<open>X\<close> is not a node: with the record
  \<open>{path: [A, B], flow: 0.3}\<close> alone the edge \<open>(A, B)\<close> is drawn at the width 2.5; with the
  record \<open>{path: [A, B, X], flow: 0.7}\<close> after it, which validation rejects with a defect,
  the edge is drawn at the width 4.5, since line 254 reads the rejected record again.
\<close>

theorem rejected_record_widens_edge:
  "\<not> has_node \<lparr>nodes = {''A'', ''B''}, edges = {(''A'', ''B'')}\<rparr> ''X''
   \<and> visualize_max_flow \<lparr>nodes = {''A'', ''B''}, edges = {(''A'', ''B'')}\<rparr>
       [\<lparr>path = Present [''A'', ''B''], flow = Present 0.3\<rparr>,
        \<lparr>path = Present [''A'', ''B'', ''X''], flow = Present 0.7\<rparr>] ''A'' ''B'' ''f.png''
     = Inr (PyNone, [DrawRegularEdges, PrintDefect (NodeNotInGraph ''X'' 1), PrintIssues 1,
          DrawFlowEdges [(''A'', ''B'')] [9/2], DrawNodes, DrawSource ''A'', DrawSink ''B'',
          DrawLabels, SetTitle (MaximumFlow ''A'' ''B''), SaveFig ''f.png'', Show])
   \<and> visualize_max_flow \<lparr>nodes = {''A'', ''B''}, edges = {(''A'', ''B'')}\<rparr>
       [\<lparr>path = Present [''A'', ''B''], flow = Present 0.3\<rparr>] ''A'' ''B'' ''f.png''
     = Inr (PyNone, [DrawRegularEdges,
          DrawFlowEdges [(''A'', ''B'')] [5/2], DrawNodes, DrawSource ''A'', DrawSink ''B'',
          DrawLabels, SetTitle (MaximumFlow ''A'' ''B''), SaveFig ''f.png'', Show])"
  by code_simp

text \<open>
  Claim C3, as amended. A record with a node that is not in the graph adds no edge to the
  set of valid flow edges and adds one issue: the valid flow edges of the whole list are
  those of the list without the record, and the issues are one more. When neither call
  raises, the highlighted edges of the list and of the list without the record are the
  same, and the aggregated flow of an edge is the one without the record, raised to the
  flow of the record where its node sequence holds the edge at two consecutive positions.
  For the single record \<open>{path: [a, x], flow: 1.0}\<close> with \<open>x\<close> not in the graph there is no
  highlighted edge, nothing is drawn for the flow, and there is one defect.
\<close>

theorem unknown_node_record_effect:
  "(path p = Present ns \<and> n \<in> set ns \<and> \<not> has_node G n \<longrightarrow>
      valid_flow_edges (validate_record G i p st) = valid_flow_edges st
      \<and> path_issues_count (validate_record G i p st) = path_issues_count st + 1
      \<and> valid_flow_edges (validate_paths G (ps @ p # qs)) = valid_flow_edges (validate_paths G (ps @ qs))
      \<and> path_issues_count (validate_paths G (ps @ p # qs)) = path_issues_count (validate_paths G (ps @ qs)) + 1
      \<and> (\<forall>hs hs'. highlighted_edges G (ps @ p # qs) = Inr hs \<and> highlighted_edges G (ps @ qs) = Inr hs' \<longrightarrow>
            map fst hs = map fst hs'
            \<and> (\<forall>e m. (e, m) \<in> set hs \<longrightarrow>
                 (\<exists>m'. (e, m') \<in> set hs' \<and> m = (if traverses p e then max m' (flow_of p) else m')))))
   \<and> (\<not> has_node G x \<longrightarrow>
      validate_paths G [\<lparr>path = Present [a, x], flow = Present 1.0\<rparr>]
        = \<lparr>valid_flow_edges = {}, path_issues_count = 1,
           debug_log = [NodeNotInGraph (if has_node G a then x else a) 0]\<rparr>
      \<and> highlighted_edges G [\<lparr>path = Present [a, x], flow = Present 1.0\<rparr>] = Inr []
      \<and> draw_flow_edges [\<lparr>path = Present [a, x], flow = Present 1.0\<rparr>]
           (valid_flow_edges (validate_paths G [\<lparr>path = Present [a, x], flow = Present 1.0\<rparr>])) = Inr [])"
proof (intro conjI impI allI)
  assume a: "path p = Present ns \<and> n \<in> set ns \<and> \<not> has_node G n"
  then have na: "\<not> record_accepted G p" using unknown_node_not_accepted by blast
  from not_accepted_effect [OF na, of i st]
  show "valid_flow_edges (validate_record G i p st) = valid_flow_edges st"
    and "path_issues_count (validate_record G i p st) = path_issues_count st + 1" by simp_all
  from validate_paths_drop_record [OF na]
  show "valid_flow_edges (validate_paths G (ps @ p # qs)) = valid_flow_edges (validate_paths G (ps @ qs))"
    and "path_issues_count (validate_paths G (ps @ p # qs)) = path_issues_count (validate_paths G (ps @ qs)) + 1"
    by simp_all
  fix hs hs'
  assume h: "highlighted_edges G (ps @ p # qs) = Inr hs \<and> highlighted_edges G (ps @ qs) = Inr hs'"
  then have h1: "highlighted_edges G (ps @ p # qs) = Inr hs"
    and h2: "highlighted_edges G (ps @ qs) = Inr hs'" by simp_all
  show "map fst hs = map fst hs'" by (rule highlighted_drop_record(1) [OF na h1 h2])
  fix e m assume "(e, m) \<in> set hs"
  then show "\<exists>m'. (e, m') \<in> set hs' \<and> m = (if traverses p e then max m' (flow_of p) else m')"
    by (rule highlighted_drop_record(2) [OF na h1 h2])
next
  assume x: "\<not> has_node G x"
  let ?r = "\<lparr>path = Present [a, x], flow = Present 1.0\<rparr>"
  show v: "validate_paths G [?r] = \<lparr>valid_flow_edges = {}, path_issues_count = 1,
           debug_log = [NodeNotInGraph (if has_node G a then x else a) 0]\<rparr>"
    using x by (simp add: validate_paths_def validate_record_def init_vstate_def add_issue_def)
  show "highlighted_edges G [?r] = Inr []"
    using v by (simp add: highlighted_edges_def)
  show "draw_flow_edges [?r] (valid_flow_edges (validate_paths G [?r])) = Inr []"
    using v by (simp add: draw_flow_edges_def)
qed

theorem unknown_node_record_effect_witness:
  "\<not> has_node \<lparr>nodes = {''A'', ''B''}, edges = {(''A'', ''B'')}\<rparr> ''X''
   \<and> validate_paths \<lparr>nodes = {''A'', ''B''}, edges = {(''A'', ''B'')}\<rparr>
       [\<lparr>path = Present [''A'', ''X''], flow = Present 1.0\<rparr>]
        = \<lparr>valid_flow_edges = {}, path_issues_count = 1, debug_log = [NodeNotInGraph ''X'' 0]\<rparr>
   \<and> highlighted_edges \<lparr>nodes = {''A'', ''B''}, edges = {(''A'', ''B'')}\<rparr>
        [\<lparr>path = Present [''A'', ''B''], flow = Present 0.3\<rparr>,
         \<lparr>path = Present [''A'', ''B'', ''X''], flow = Present 0.7\<rparr>] = Inr [((''A'', ''B''), 7/10)]
   \<and> highlighted_edges \<lparr>nodes = {''A'', ''B''}, edges = {(''A'', ''B'')}\<rparr>
        [\<lparr>path = Present [''A'', ''B''], flow = Present 0.3\<rparr>] = Inr [((''A'', ''B''), 3/10)]
   \<and> map fst [((''A'', ''B''), 7/10 :: real)] = map fst [((''A'', ''B''), 3/10 :: real)]
   \<and> valid_flow_edges (validate_paths \<lparr>nodes = {''A'', ''B''}, edges = {(''A'', ''B'')}\<rparr>
        [\<lparr>path = Present [''A'', ''B''], flow = Present 0.3\<rparr>,
         \<lparr>path = Present [''A'', ''B'', ''X''], flow = Present 0.7\<rparr>])
     = valid_flow_edges (validate_paths \<lparr>nodes = {''A'', ''B''}, edges = {(''A'', ''B'')}\<rparr>
        [\<lparr>path = Present [''A'', ''B''], flow = Present 0.3\<rparr>])"
proof -
  let ?G = "\<lparr>nodes = {''A'', ''B''}, edges = {(''A'', ''B'')}\<rparr>"
  let ?q = "\<lparr>path = Present [''A'', ''B''], flow = Present 0.3\<rparr>"
  let ?p = "\<lparr>path = Present [''A'', ''B'', ''X''], flow = Present 0.7\<rparr>"
  have x: "\<not> has_node ?G ''X''" by (simp add: has_node_def)
  have a: "has_node ?G ''A''" by (simp add: has_node_def)
  have hp: "path ?p = Present [''A'', ''B'', ''X''] \<and> ''X'' \<in> set [''A'', ''B'', ''X''] \<and> \<not> has_node ?G ''X''"
    using x by simp
  have r1: "highlighted_edges ?G ([?q] @ ?p # []) = Inr [((''A'', ''B''), 7/10)]" by code_simp
  have r2: "highlighted_edges ?G ([?q] @ []) = Inr [((''A'', ''B''), 3/10)]" by code_simp
  note t = unknown_node_record_effect [of ?p "[''A'', ''B'', ''X'']" "''X''" ?G 0 init_vstate "[?q]" "[]" "''X''" "''A''"]
  from t hp have c1: "valid_flow_edges (validate_paths ?G ([?q] @ ?p # []))
        = valid_flow_edges (validate_paths ?G ([?q] @ []))"
    by blast
  from t hp have c2: "\<forall>hs hs'. highlighted_edges ?G ([?q] @ ?p # []) = Inr hs
        \<and> highlighted_edges ?G ([?q] @ []) = Inr hs' \<longrightarrow> map fst hs = map fst hs'"
    by blast
  from c2 r1 r2 have c3: "map fst [((''A'', ''B''), 7/10 :: real)] = map fst [((''A'', ''B''), 3/10 :: real)]"
    by blast
  from t x have c4: "validate_paths ?G [\<lparr>path = Present [''A'', ''X''], flow = Present 1.0\<rparr>]
        = \<lparr>valid_flow_edges = {}, path_issues_count = 1,
           debug_log = [NodeNotInGraph (if has_node ?G ''A'' then ''X'' else ''A'') 0]\<rparr>"
    by blast
  from x a c1 c3 c4 r1 r2 show ?thesis by simp
qed

text \<open>
  Claim C2. The claim: in every record whose nodes are all in the graph, a consecutive
  pair that is an edge is highlighted, whatever happens to the other pairs. It fails for
  a record without a flow: on the graph with the nodes \<open>A\<close>, \<open>B\<close>, \<open>C\<close> and the edge
  \<open>B \<rightarrow> C\<close>, the record \<open>{path: [A, B, C]}\<close> is skipped by line 212, so that \<open>(B, C)\<close> is
  not highlighted and no defect is logged for the segment \<open>(A, B)\<close>.
\<close>

theorem missing_flow_drops_segments:
  "first_missing_node \<lparr>nodes = {''A'', ''B'', ''C''}, edges = {(''B'', ''C'')}\<rparr> [''A'', ''B'', ''C''] = None
   \<and> \<not> has_edge \<lparr>nodes = {''A'', ''B'', ''C''}, edges = {(''B'', ''C'')}\<rparr> ''A'' ''B''
   \<and> has_edge \<lparr>nodes = {''A'', ''B'', ''C''}, edges = {(''B'', ''C'')}\<rparr> ''B'' ''C''
   \<and> validate_paths \<lparr>nodes = {''A'', ''B'', ''C''}, edges = {(''B'', ''C'')}\<rparr>
        [\<lparr>path = Present [''A'', ''B'', ''C''], flow = Missing\<rparr>]
      = \<lparr>valid_flow_edges = {}, path_issues_count = 1, debug_log = [MissingFlow 0]\<rparr>
   \<and> highlighted_edges \<lparr>nodes = {''A'', ''B'', ''C''}, edges = {(''B'', ''C'')}\<rparr>
        [\<lparr>path = Present [''A'', ''B'', ''C''], flow = Missing\<rparr>] = Inr []"
  by code_simp

text \<open>
  Claim C2, as amended. In every record of the list that has a flow and whose nodes are
  all in the graph, each consecutive pair that is an edge of the graph is a valid flow edge
  and, when the call does not raise, is highlighted with an aggregated flow that is at
  least the flow of the record; each consecutive pair that is not an edge is not a valid
  flow edge, and a defect is logged for that segment of that record. The record adds as
  many issues as it has segments that are not edges.
\<close>

theorem valid_segments_kept:
  assumes "i < length ps" "ps ! i = p" "path p = Present ns" "flow p = Present f"
    and "\<forall>n\<in>set ns. has_node G n" and "(u, v) \<in> set (segments ns)"
  shows "(has_edge G u v \<longrightarrow>
            (u, v) \<in> valid_flow_edges (validate_paths G ps)
            \<and> (\<forall>hs. highlighted_edges G ps = Inr hs \<longrightarrow> (\<exists>m. ((u, v), m) \<in> set hs \<and> f \<le> m)))
       \<and> (\<not> has_edge G u v \<longrightarrow>
            (u, v) \<notin> valid_flow_edges (validate_paths G ps)
            \<and> EdgeNotInGraph u v i \<in> set (debug_log (validate_paths G ps)))
       \<and> path_issues_count (validate_record G i p st)
           = path_issues_count st + length (filter (\<lambda>e. \<not> has_edge G (fst e) (snd e)) (segments ns))"
proof -
  from assms(1,2) have mem: "p \<in> set ps" by auto
  have po: "path_of p = ns" using assms(3) by (simp add: path_of_def)
  have fo: "flow_of p = f" using assms(4) by (simp add: flow_of_def)
  from assms(6) have ne: "ns \<noteq> []" by (auto simp: segments_def)
  have acc: "record_accepted G p"
    using assms(4,5) ne po by (simp add: record_accepted_iff)
  have tr: "traverses p (u, v)"
    using assms(6) po by (simp add: traverses_def edge_in_path_segments)
  have kept: "(u, v) \<in> valid_flow_edges (validate_paths G ps)" if "has_edge G u v"
    using that acc mem assms(6) po by (auto simp: validate_paths_valid record_edges_def)
  have agg: "\<exists>m. ((u, v), m) \<in> set hs \<and> f \<le> m"
    if "has_edge G u v" "highlighted_edges G ps = Inr hs" for hs
  proof -
    from that(2) kept [OF that(1)] have "((u, v), aggregated_flow ps (u, v)) \<in> set hs"
      by (simp add: highlighted_mem)
    moreover have "f \<le> aggregated_flow ps (u, v)"
      using aggregated_flow_ge [OF mem tr] fo by simp
    ultimately show ?thesis by blast
  qed
  have excl: "(u, v) \<notin> valid_flow_edges (validate_paths G ps)" if "\<not> has_edge G u v"
    using that valid_flow_edges_subset [of G ps] by (auto simp: has_edge_def)
  have logged: "EdgeNotInGraph u v i \<in> set (debug_log (validate_paths G ps))" if "\<not> has_edge G u v"
  proof -
    have "EdgeNotInGraph u v i \<in> set (debug_log (validate_record G i p init_vstate))"
      using that assms(6) po
      by (force simp: validate_record_accepted [OF acc] check_edges_log init_vstate_def)
    then show ?thesis
      using validate_paths_log_nth [OF assms(1), of G] assms(2) by blast
  qed
  have cnt: "path_issues_count (validate_record G i p st)
           = path_issues_count st + length (filter (\<lambda>e. \<not> has_edge G (fst e) (snd e)) (segments ns))"
    using po by (simp add: validate_record_accepted [OF acc] check_edges_count)
  from kept agg excl logged cnt show ?thesis by blast
qed

theorem valid_segments_kept_witness:
  "(''B'', ''C'') \<in> valid_flow_edges (validate_paths \<lparr>nodes = {''A'', ''B'', ''C''}, edges = {(''B'', ''C'')}\<rparr>
        [\<lparr>path = Present [''A'', ''B'', ''C''], flow = Present 2\<rparr>])
   \<and> (''A'', ''B'') \<notin> valid_flow_edges (validate_paths \<lparr>nodes = {''A'', ''B'', ''C''}, edges = {(''B'', ''C'')}\<rparr>
        [\<lparr>path = Present [''A'', ''B'', ''C''], flow = Present 2\<rparr>])
   \<and> EdgeNotInGraph ''A'' ''B'' 0 \<in> set (debug_log (validate_paths \<lparr>nodes = {''A'', ''B'', ''C''}, edges = {(''B'', ''C'')}\<rparr>
        [\<lparr>path = Present [''A'', ''B'', ''C''], flow = Present 2\<rparr>]))
   \<and> highlighted_edges \<lparr>nodes = {''A'', ''B'', ''C''}, edges = {(''B'', ''C'')}\<rparr>
        [\<lparr>path = Present [''A'', ''B'', ''C''], flow = Present 2\<rparr>] = Inr [((''B'', ''C''), 2)]"
proof -
  let ?G = "\<lparr>nodes = {''A'', ''B'', ''C''}, edges = {(''B'', ''C'')}\<rparr>"
  let ?p = "\<lparr>path = Present [''A'', ''B'', ''C''], flow = Present 2\<rparr>"
  let ?ns = "[''A'', ''B'', ''C'']"
  have h1: "0 < length [?p]" and h2: "[?p] ! 0 = ?p" and h3: "path ?p = Present ?ns"
    and h4: "flow ?p = Present 2" by simp_all
  have h5: "\<forall>n\<in>set ?ns. has_node ?G n" by (simp add: has_node_def)
  have s1: "(''A'', ''B'') \<in> set (segments ?ns)" and s2: "(''B'', ''C'') \<in> set (segments ?ns)"
    by (simp_all add: segments_def)
  have e1: "\<not> has_edge ?G ''A'' ''B''" and e2: "has_edge ?G ''B'' ''C''"
    by (simp_all add: has_edge_def)
  from valid_segments_kept [OF h1 h2 h3 h4 h5 s1, of init_vstate] e1
  have a: "(''A'', ''B'') \<notin> valid_flow_edges (validate_paths ?G [?p])"
    and b: "EdgeNotInGraph ''A'' ''B'' 0 \<in> set (debug_log (validate_paths ?G [?p]))" by blast+
  from valid_segments_kept [OF h1 h2 h3 h4 h5 s2, of init_vstate] e2
  have c: "(''B'', ''C'') \<in> valid_flow_edges (validate_paths ?G [?p])" by blast
  have d: "highlighted_edges ?G [?p] = Inr [((''B'', ''C''), 2)]" by code_simp
  from a b c d show ?thesis by blast
qed

end
